theory Spec2Isabelle
  imports Main "HOL-Library.Sublist"
begin

section \<open>Data model\<close>

text \<open>
  Exceptions that cross the functions of \<^verbatim>\<open>command_executor.py\<close>: the two pexpect
  exceptions that \<^verbatim>\<open>collect_output\<close> catches, and every other exception (a failed
  oracle call, a socket error), which no function of the module catches.
\<close>

datatype exn = TIMEOUT | EOF | Failure string

text \<open>
  \<^verbatim>\<open>CommandReport(command, success, insights)\<close> as \<^verbatim>\<open>graph_agent.py\<close> builds and
  reads it; \<^verbatim>\<open>success\<close> and \<^verbatim>\<open>insights\<close> may be \<^verbatim>\<open>None\<close>.
\<close>

record command_report =
  command :: string
  success :: "bool option"
  insights :: "string option"

text \<open>The two JSON messages sent to the remote peer: \<^verbatim>\<open>{"command": c}\<close> and \<^verbatim>\<open>{"input": i}\<close>.\<close>

datatype message = Command string | Input string

text \<open>Calls that leave the program, in the order in which they are made.\<close>

datatype event =
    Spawn
  | ReadNonblocking nat nat
  | Sendline string
  | Uuid4
  | ProvideInput string
  | AnalyzeOutput string
  | FetchModify string command_report
  | ClientEnter
  | SendMessage message
  | ReadResponse
  | ClientExit

text \<open>
  The collaborators, over an arbitrary outside world \<open>'w\<close>: the pexpect process, the
  agent and the socket client. A read takes the size and the timeout in milliseconds.
\<close>

record 'w env =
  spawn :: "'w \<Rightarrow> 'w"
  read_nonblocking :: "nat \<Rightarrow> nat \<Rightarrow> 'w \<Rightarrow> (exn + string) \<times> 'w"
  sendline :: "string \<Rightarrow> 'w \<Rightarrow> 'w"
  uuid4 :: "'w \<Rightarrow> string \<times> 'w"
  shlex_quote :: "string \<Rightarrow> string"
  linesep :: string
  provide_input :: "string \<Rightarrow> 'w \<Rightarrow> (exn + string) \<times> 'w"
  analyze_output :: "string \<Rightarrow> 'w \<Rightarrow> (exn + command_report) \<times> 'w"
  fetch_modify_file_commands :: "string \<Rightarrow> command_report \<Rightarrow> 'w \<Rightarrow> (exn + string list) \<times> 'w"
  client_enter :: "'w \<Rightarrow> (exn + unit) \<times> 'w"
  send_message :: "message \<Rightarrow> 'w \<Rightarrow> (exn + string) \<times> 'w"
  read_response :: "'w \<Rightarrow> (exn + string) \<times> 'w"
  client_exit :: "'w \<Rightarrow> 'w"

text \<open>The state threaded through the program: the outside world and the calls made so far.\<close>

record 'w sess =
  world :: 'w
  trace :: "event list"

definition emit :: "event \<Rightarrow> 'w \<Rightarrow> 'w sess \<Rightarrow> 'w sess" where
  "emit e w s = \<lparr>world = w, trace = trace s @ [e]\<rparr>"

definition do_spawn :: "'w env \<Rightarrow> 'w sess \<Rightarrow> 'w sess" where
  "do_spawn E s = emit Spawn (spawn E (world s)) s"

definition do_read :: "'w env \<Rightarrow> nat \<Rightarrow> nat \<Rightarrow> 'w sess \<Rightarrow> (exn + string) \<times> 'w sess" where
  "do_read E n t s = (case read_nonblocking E n t (world s) of
     (r, w) \<Rightarrow> (r, emit (ReadNonblocking n t) w s))"

definition do_sendline :: "'w env \<Rightarrow> string \<Rightarrow> 'w sess \<Rightarrow> 'w sess" where
  "do_sendline E l s = emit (Sendline l) (sendline E l (world s)) s"

definition do_uuid4 :: "'w env \<Rightarrow> 'w sess \<Rightarrow> string \<times> 'w sess" where
  "do_uuid4 E s = (case uuid4 E (world s) of (u, w) \<Rightarrow> (u, emit Uuid4 w s))"

definition do_provide_input :: "'w env \<Rightarrow> string \<Rightarrow> 'w sess \<Rightarrow> (exn + string) \<times> 'w sess" where
  "do_provide_input E text s = (case provide_input E text (world s) of
     (r, w) \<Rightarrow> (r, emit (ProvideInput text) w s))"

definition do_analyze_output ::
  "'w env \<Rightarrow> string \<Rightarrow> 'w sess \<Rightarrow> (exn + command_report) \<times> 'w sess" where
  "do_analyze_output E text s = (case analyze_output E text (world s) of
     (r, w) \<Rightarrow> (r, emit (AnalyzeOutput text) w s))"

definition do_fetch_modify ::
  "'w env \<Rightarrow> string \<Rightarrow> command_report \<Rightarrow> 'w sess \<Rightarrow> (exn + string list) \<times> 'w sess" where
  "do_fetch_modify E path cr s = (case fetch_modify_file_commands E path cr (world s) of
     (r, w) \<Rightarrow> (r, emit (FetchModify path cr) w s))"

definition do_client_enter :: "'w env \<Rightarrow> 'w sess \<Rightarrow> (exn + unit) \<times> 'w sess" where
  "do_client_enter E s = (case client_enter E (world s) of (r, w) \<Rightarrow> (r, emit ClientEnter w s))"

definition do_send_message :: "'w env \<Rightarrow> message \<Rightarrow> 'w sess \<Rightarrow> (exn + string) \<times> 'w sess" where
  "do_send_message E m s = (case send_message E m (world s) of
     (r, w) \<Rightarrow> (r, emit (SendMessage m) w s))"

definition do_read_response :: "'w env \<Rightarrow> 'w sess \<Rightarrow> (exn + string) \<times> 'w sess" where
  "do_read_response E s = (case read_response E (world s) of (r, w) \<Rightarrow> (r, emit ReadResponse w s))"

definition do_client_exit :: "'w env \<Rightarrow> 'w sess \<Rightarrow> 'w sess" where
  "do_client_exit E s = emit ClientExit (client_exit E (world s)) s"

section \<open>command\_executor.py\<close>

subsection \<open>collect\_output\<close>

text \<open>
  The \<^verbatim>\<open>while True\<close> loop of \<^verbatim>\<open>collect_output\<close> with its accumulator
  \<^verbatim>\<open>command_output\<close>. \<^verbatim>\<open>marker in output\<close> is Python's substring test, on the
  chunk just read. The loop has no counter: a result of \<open>None\<close> is a loop that never ends.
\<close>

partial_function (option) collect_loop ::
  "'w env \<Rightarrow> string \<Rightarrow> string \<Rightarrow> 'w sess \<Rightarrow> ((exn + string) \<times> 'w sess) option" where
  "collect_loop E command_end_marker command_output s =
    (case do_read E 1024 2000 s of
       (Inr output, s') \<Rightarrow>
         if sublist command_end_marker output
         then Some (Inr (command_output @ output), s')
         else collect_loop E command_end_marker (command_output @ output) s'
     | (Inl TIMEOUT, s') \<Rightarrow> Some (Inr command_output, s')
     | (Inl EOF, s') \<Rightarrow> Some (Inr command_output, s')
     | (Inl (Failure m), s') \<Rightarrow> Some (Inl (Failure m), s'))"

declare collect_loop.simps [code]

definition collect_output ::
  "'w env \<Rightarrow> string \<Rightarrow> 'w sess \<Rightarrow> ((exn + string) \<times> 'w sess) option" where
  "collect_output E command_end_marker s = collect_loop E command_end_marker [] s"

subsection \<open>LocalCommandExecutor\<close>

text \<open>Python's truth value of an optional string: \<^verbatim>\<open>None\<close> and \<^verbatim>\<open>""\<close> are false.\<close>

definition truthy :: "string option \<Rightarrow> bool" where
  "truthy x = (case x of None \<Rightarrow> False | Some t \<Rightarrow> t \<noteq> [])"

definition get_input_text ::
  "'w env \<Rightarrow> string \<Rightarrow> 'w sess \<Rightarrow> (exn + string option) \<times> 'w sess" where
  "get_input_text E text s = (case do_provide_input E text s of
     (Inl e, s') \<Rightarrow> (Inl e, s')
   | (Inr instruction, s') \<Rightarrow>
       (Inr (if instruction = ''breba-noop'' then None
             else if instruction \<noteq> [] then Some instruction
             else None), s'))"

text \<open>The inner \<^verbatim>\<open>while True\<close> loop of \<^verbatim>\<open>execute_commands_sync\<close> (lines 70 to 80).\<close>

partial_function (option) command_loop ::
  "'w env \<Rightarrow> string \<Rightarrow> string \<Rightarrow> 'w sess \<Rightarrow> ((exn + string) \<times> 'w sess) option" where
  "command_loop E command_end_marker command_output s =
    Option.bind (collect_output E command_end_marker s) (\<lambda>(r, s1).
      case r of
        Inl e \<Rightarrow> Some (Inl e, s1)
      | Inr new_output \<Rightarrow>
          if new_output \<noteq> [] then
            (case get_input_text E new_output s1 of
               (Inl e, s2) \<Rightarrow> Some (Inl e, s2)
             | (Inr input_text, s2) \<Rightarrow>
                 if truthy input_text then
                   command_loop E command_end_marker
                     (command_output @ new_output @ the input_text @ linesep E)
                     (do_sendline E (the input_text) s2)
                 else command_loop E command_end_marker (command_output @ new_output) s2)
          else Some (Inr (command_output @ new_output), s1))"

declare command_loop.simps [code]

text \<open>The body of the \<^verbatim>\<open>for command in commands\<close> loop (lines 61 to 82).\<close>

definition run_command ::
  "'w env \<Rightarrow> string \<Rightarrow> 'w sess \<Rightarrow> ((exn + command_report) \<times> 'w sess) option" where
  "run_command E cmd s =
    (let escaped_command = shlex_quote E cmd;
         s1 = do_sendline E (''echo '' @ escaped_command @ [CHR 0x0A]) s;
         (command_id, s2) = do_uuid4 E s1;
         command_end_marker = ''Completed '' @ command_id;
         cmd' = cmd @ '' && echo '' @ command_end_marker;
         s3 = do_sendline E cmd' s2
     in Option.bind (command_loop E command_end_marker [] s3) (\<lambda>(r, s4).
          case r of
            Inl e \<Rightarrow> Some (Inl e, s4)
          | Inr command_output \<Rightarrow>
              (case do_analyze_output E command_output s4 of
                 (Inl e, s5) \<Rightarrow> Some (Inl e, s5)
               | (Inr agent_output, s5) \<Rightarrow> Some (Inr agent_output, s5))))"

fun local_for ::
  "'w env \<Rightarrow> string list \<Rightarrow> command_report list \<Rightarrow> 'w sess
    \<Rightarrow> ((exn + command_report list) \<times> 'w sess) option" where
  "local_for E [] report s = Some (Inr report, s)"
| "local_for E (cmd # commands) report s =
    Option.bind (run_command E cmd s) (\<lambda>(r, s').
      case r of
        Inl e \<Rightarrow> Some (Inl e, s')
      | Inr agent_output \<Rightarrow> local_for E commands (report @ [agent_output]) s')"

definition local_execute_commands_sync ::
  "'w env \<Rightarrow> string list \<Rightarrow> 'w sess \<Rightarrow> ((exn + command_report list) \<times> 'w sess) option" where
  "local_execute_commands_sync E commands s =
    (let s1 = do_spawn E s in
     case do_read E 1024 500 s1 of
       (Inl e, s2) \<Rightarrow> Some (Inl e, s2)
     | (Inr banner, s2) \<Rightarrow> local_for E commands [] s2)"

subsection \<open>ContainerCommandExecutor\<close>

definition get_input_message ::
  "'w env \<Rightarrow> string \<Rightarrow> 'w sess \<Rightarrow> (exn + message option) \<times> 'w sess" where
  "get_input_message E text s = (case do_provide_input E text s of
     (Inl e, s') \<Rightarrow> (Inl e, s')
   | (Inr instruction, s') \<Rightarrow>
       (Inr (if instruction = ''breba-noop'' then None
             else if instruction \<noteq> [] then Some (Input instruction)
             else None), s'))"

partial_function (option) collect_response ::
  "'w env \<Rightarrow> string \<Rightarrow> 'w sess \<Rightarrow> ((exn + string) \<times> 'w sess) option" where
  "collect_response E response s =
    (if response \<noteq> [] then
       (case get_input_message E response s of
          (Inl e, s1) \<Rightarrow> Some (Inl e, s1)
        | (Inr input_message, s1) \<Rightarrow>
            (case (case input_message of
                     Some m \<Rightarrow> do_send_message E m s1
                   | None \<Rightarrow> (Inr [], s1)) of
               (Inl e, s2) \<Rightarrow> Some (Inl e, s2)
             | (Inr input_response, s2) \<Rightarrow>
                 (case do_read_response E s2 of
                    (Inl e, s3) \<Rightarrow> Some (Inl e, s3)
                  | (Inr r, s3) \<Rightarrow>
                      Option.bind (collect_response E r s3) (\<lambda>(res, s4).
                        case res of
                          Inl e \<Rightarrow> Some (Inl e, s4)
                        | Inr additional_response \<Rightarrow>
                            Some (Inr (response @ input_response @ additional_response), s4)))))
     else Some (Inr [], s))"

declare collect_response.simps [code]

text \<open>The body of the \<^verbatim>\<open>for\<close> loop of the container executor (lines 130 to 134).\<close>

definition container_command ::
  "'w env \<Rightarrow> string \<Rightarrow> 'w sess \<Rightarrow> ((exn + command_report) \<times> 'w sess) option" where
  "container_command E cmd s =
    (case do_send_message E (Command cmd) s of
       (Inl e, s1) \<Rightarrow> Some (Inl e, s1)
     | (Inr response, s1) \<Rightarrow>
         Option.bind (collect_response E response s1) (\<lambda>(r, s2).
           case r of
             Inl e \<Rightarrow> Some (Inl e, s2)
           | Inr response' \<Rightarrow>
               (case do_analyze_output E response' s2 of
                  (Inl e, s3) \<Rightarrow> Some (Inl e, s3)
                | (Inr agent_output, s3) \<Rightarrow> Some (Inr agent_output, s3))))"

fun container_for ::
  "'w env \<Rightarrow> string list \<Rightarrow> command_report list \<Rightarrow> 'w sess
    \<Rightarrow> ((exn + command_report list) \<times> 'w sess) option" where
  "container_for E [] report s = Some (Inr report, s)"
| "container_for E (cmd # commands) report s =
    Option.bind (container_command E cmd s) (\<lambda>(r, s').
      case r of
        Inl e \<Rightarrow> Some (Inl e, s')
      | Inr agent_output \<Rightarrow> container_for E commands (report @ [agent_output]) s')"

text \<open>
  Modelled from the spec: \<^verbatim>\<open>breba_docs/socket_server/client.py\<close> is not among the
  sources. \<^verbatim>\<open>with Client() as socket_client\<close> opens the one connection of the batch
  (\<open>client_enter\<close>, which may fail) and, by the semantics of \<^verbatim>\<open>with\<close>, runs
  \<open>client_exit\<close> when the block is left, normally or by an exception, which it passes on.
\<close>

definition container_execute_commands_sync ::
  "'w env \<Rightarrow> string list \<Rightarrow> 'w sess \<Rightarrow> ((exn + command_report list) \<times> 'w sess) option" where
  "container_execute_commands_sync E commands s =
    (case do_client_enter E s of
       (Inl e, s1) \<Rightarrow> Some (Inl e, s1)
     | (Inr u, s1) \<Rightarrow>
         Option.bind (container_for E commands [] s1) (\<lambda>(r, s2).
           Some (r, do_client_exit E s2)))"

section \<open>graph\_agent.py\<close>

text \<open>
  Modelled from the spec: \<^verbatim>\<open>breba_docs/services/reports.py\<close>, which declares the
  \<^verbatim>\<open>GoalReport\<close> that \<^verbatim>\<open>graph_agent.py\<close> imports, is not among the sources. It is a
  dataclass with the goal's name, its description, the list of command reports and the
  list of modification reports; \<^verbatim>\<open>graph_agent.py\<close> constructs it from the first three,
  so the fourth defaults to a new empty list. The two lists are Python list objects: a
  \<^verbatim>\<open>GoalReport\<close> holds references to them.
\<close>

record goal_report =
  goal_name :: string
  goal_description :: string
  command_reports :: nat
  modify_command_reports :: nat

text \<open>
  The store: the \<^verbatim>\<open>GoalReport\<close> objects and the list objects by address, and the
  next address that is free. Command reports are never assigned to and are kept as values.
\<close>

record heap =
  goal_objs :: "nat \<Rightarrow> goal_report"
  list_objs :: "nat \<Rightarrow> command_report list"
  next_ref :: nat

definition new_list :: "command_report list \<Rightarrow> heap \<Rightarrow> nat \<times> heap" where
  "new_list xs h =
     (next_ref h, h\<lparr>list_objs := (list_objs h)(next_ref h := xs), next_ref := Suc (next_ref h)\<rparr>)"

definition new_goal :: "goal_report \<Rightarrow> heap \<Rightarrow> nat \<times> heap" where
  "new_goal g h =
     (next_ref h, h\<lparr>goal_objs := (goal_objs h)(next_ref h := g), next_ref := Suc (next_ref h)\<rparr>)"

text \<open>
  \<^verbatim>\<open>dataclasses.replace(report)\<close> with no changes: a new object whose fields hold what
  the fields of \<^verbatim>\<open>report\<close> hold, for the two lists the same references.
\<close>

definition replace_goal :: "nat \<Rightarrow> heap \<Rightarrow> nat \<times> heap" where
  "replace_goal a h = new_goal (goal_objs h a) h"

text \<open>
  \<^verbatim>\<open>current_goal.modify_command_reports += modify_report\<close>: the list object that the
  attribute refers to is extended in place, and the attribute is assigned that same object.
\<close>

definition iadd_modify_command_reports :: "nat \<Rightarrow> command_report list \<Rightarrow> heap \<Rightarrow> heap" where
  "iadd_modify_command_reports current_goal modify_report h =
     (let a = modify_command_reports (goal_objs h current_goal);
          h1 = h\<lparr>list_objs := (list_objs h)(a := list_objs h a @ modify_report)\<rparr>
      in h1\<lparr>goal_objs := (goal_objs h1)
               (current_goal := (goal_objs h1 current_goal)\<lparr>modify_command_reports := a\<rparr>)\<rparr>)"

text \<open>\<^verbatim>\<open>not command_report.success\<close>: true for \<^verbatim>\<open>False\<close> and for \<^verbatim>\<open>None\<close>.\<close>

definition not_success :: "command_report \<Rightarrow> bool" where
  "not_success command_report = (success command_report \<noteq> Some True)"

text \<open>
  The \<^verbatim>\<open>for command_report in current_goal.command_reports\<close> loop of
  \<^verbatim>\<open>execute_mutator_commands\<close>: the iterator walks the list object \<open>reports\<close> by index
  and looks at its length at every step.
\<close>

partial_function (option) mutator_loop ::
  "'w env \<Rightarrow> string \<Rightarrow> nat \<Rightarrow> nat \<Rightarrow> nat \<Rightarrow> heap \<times> 'w sess
     \<Rightarrow> ((exn + unit) \<times> heap \<times> 'w sess) option" where
  "mutator_loop E filepath current_goal reports i hs =
    (case hs of (h, s) \<Rightarrow>
      if i < length (list_objs h reports) then
        (let command_report = list_objs h reports ! i in
         if not_success command_report then
           (case do_fetch_modify E filepath command_report s of
              (Inl e, s1) \<Rightarrow> Some (Inl e, h, s1)
            | (Inr modify_commands, s1) \<Rightarrow>
                Option.bind (local_execute_commands_sync E modify_commands s1) (\<lambda>(r, s2).
                  case r of
                    Inl e \<Rightarrow> Some (Inl e, h, s2)
                  | Inr modify_report \<Rightarrow>
                      mutator_loop E filepath current_goal reports (Suc i)
                        (iadd_modify_command_reports current_goal modify_report h, s2)))
         else mutator_loop E filepath current_goal reports (Suc i) (h, s))
      else Some (Inr (), h, s))"

declare mutator_loop.simps [code]

text \<open>\<^verbatim>\<open>[dataclasses.replace(report) for report in ...]\<close>.\<close>

fun replace_all :: "nat list \<Rightarrow> heap \<Rightarrow> nat list \<times> heap" where
  "replace_all [] h = ([], h)"
| "replace_all (a # as) h =
    (case replace_goal a h of (b, h1) \<Rightarrow>
       (case replace_all as h1 of (bs, h2) \<Rightarrow> (b # bs, h2)))"

text \<open>
  \<^verbatim>\<open>execute_mutator_commands\<close>, on the references held by \<^verbatim>\<open>state['goal_reports']\<close>;
  its result is the new \<^verbatim>\<open>goal_reports\<close> list. Indexing an empty list with \<^verbatim>\<open>-1\<close>
  raises \<^verbatim>\<open>IndexError\<close>.
\<close>

definition execute_mutator_commands ::
  "'w env \<Rightarrow> string \<Rightarrow> nat list \<Rightarrow> heap \<times> 'w sess
     \<Rightarrow> ((exn + nat list) \<times> heap \<times> 'w sess) option" where
  "execute_mutator_commands E filepath goal_reports hs =
    (case hs of (h, s) \<Rightarrow>
      if goal_reports = [] then Some (Inl (Failure ''IndexError''), h, s)
      else
        (case replace_goal (last goal_reports) h of (current_goal, h1) \<Rightarrow>
          Option.bind
            (mutator_loop E filepath current_goal
               (command_reports (goal_objs h1 current_goal)) 0 (h1, s))
            (\<lambda>(r, h2, s2).
               case r of
                 Inl e \<Rightarrow> Some (Inl e, h2, s2)
               | Inr u \<Rightarrow>
                   (case replace_all (butlast goal_reports) h2 of
                      (updated_goal_reports, h3) \<Rightarrow>
                        Some (Inr (updated_goal_reports @ [current_goal]), h3, s2)))))"

text \<open>\<^verbatim>\<open>execute_commands\<close>, which builds the new \<^verbatim>\<open>GoalReport\<close> from the reports of the
  container executor.\<close>

definition execute_commands ::
  "'w env \<Rightarrow> nat list \<Rightarrow> heap \<times> 'w sess \<Rightarrow> ((exn + nat list) \<times> heap \<times> 'w sess) option" where
  "execute_commands E goal_reports hs =
    (case hs of (h, s) \<Rightarrow>
      if goal_reports = [] then Some (Inl (Failure ''IndexError''), h, s)
      else
        (let current_goal = goal_objs h (last goal_reports);
             commands = map command (list_objs h (command_reports current_goal))
         in Option.bind (container_execute_commands_sync E commands s) (\<lambda>(r, s1).
              case r of
                Inl e \<Rightarrow> Some (Inl e, h, s1)
              | Inr reports \<Rightarrow>
                  (case new_list reports h of (cr, h1) \<Rightarrow>
                  (case new_list [] h1 of (mr, h2) \<Rightarrow>
                  (case new_goal \<lparr>goal_name = goal_name current_goal,
                                  goal_description = goal_description current_goal,
                                  command_reports = cr,
                                  modify_command_reports = mr\<rparr> h2 of
                     (updated_goal, h3) \<Rightarrow>
                       Some (Inr (butlast goal_reports @ [updated_goal]), h3, s1)))))))"

text \<open>The modification reports that the \<^verbatim>\<open>GoalReport\<close> at address \<open>a\<close> shows.\<close>

definition modify_reports_of :: "heap \<Rightarrow> nat \<Rightarrow> command_report list" where
  "modify_reports_of h a = list_objs h (modify_command_reports (goal_objs h a))"

definition command_reports_of :: "heap \<Rightarrow> nat \<Rightarrow> command_report list" where
  "command_reports_of h a = list_objs h (command_reports (goal_objs h a))"

section \<open>A scripted environment\<close>

text \<open>
  A concrete outside world on which the program can be run: the reads of the process,
  the answers of the input oracle and the responses of the remote peer are scripts that
  are used up from the front. A process with nothing left to say times out, a peer with
  nothing left to say answers with the empty payload, and the oracle then answers
  \<^verbatim>\<open>breba-noop\<close>. The judge calls an output a success when it holds no \<^verbatim>\<open>error\<close>.
  The commands of the scripts are plain words, which \<^verbatim>\<open>shlex.quote\<close> leaves as they are.
\<close>

record script =
  reads :: "(exn + string) list"
  answers :: "string list"
  responses :: "string list"

definition script_read :: "script \<Rightarrow> (exn + string) \<times> script" where
  "script_read w = (case reads w of
     [] \<Rightarrow> (Inl TIMEOUT, w)
   | r # rs \<Rightarrow> (r, w\<lparr>reads := rs\<rparr>))"

definition script_answer :: "script \<Rightarrow> (exn + string) \<times> script" where
  "script_answer w = (case answers w of
     [] \<Rightarrow> (Inr ''breba-noop'', w)
   | a # as \<Rightarrow> (Inr a, w\<lparr>answers := as\<rparr>))"

definition script_response :: "script \<Rightarrow> (exn + string) \<times> script" where
  "script_response w = (case responses w of
     [] \<Rightarrow> (Inr [], w)
   | r # rs \<Rightarrow> (Inr r, w\<lparr>responses := rs\<rparr>))"

definition script_judge :: "string \<Rightarrow> command_report" where
  "script_judge out =
     \<lparr>command = [], success = Some (\<not> sublist ''error'' out), insights = Some out\<rparr>"

definition script_env :: "script env" where
  "script_env =
     \<lparr>spawn = (\<lambda>w. w),
      read_nonblocking = (\<lambda>n t. script_read),
      sendline = (\<lambda>l w. w),
      uuid4 = (\<lambda>w. (''7'', w)),
      shlex_quote = (\<lambda>c. c),
      linesep = [CHR 0x0A],
      provide_input = (\<lambda>text. script_answer),
      analyze_output = (\<lambda>out w. (Inr (script_judge out), w)),
      fetch_modify_file_commands = (\<lambda>path cr w. (Inr [''fix''], w)),
      client_enter = (\<lambda>w. (Inr (), w)),
      send_message = (\<lambda>m. script_response),
      read_response = script_response,
      client_exit = (\<lambda>w. w)\<rparr>"

definition start :: "(exn + string) list \<Rightarrow> string list \<Rightarrow> string list \<Rightarrow> script sess" where
  "start rs as ps = \<lparr>world = \<lparr>reads = rs, answers = as, responses = ps\<rparr>, trace = []\<rparr>"

text \<open>A process that has a marker-free chunk ready at every read.\<close>

definition chatty_env :: "unit env" where
  "chatty_env =
     \<lparr>spawn = (\<lambda>w. w),
      read_nonblocking = (\<lambda>n t w. (Inr ''y'', w)),
      sendline = (\<lambda>l w. w),
      uuid4 = (\<lambda>w. (''7'', w)),
      shlex_quote = (\<lambda>c. c),
      linesep = [CHR 0x0A],
      provide_input = (\<lambda>text w. (Inr ''breba-noop'', w)),
      analyze_output = (\<lambda>out w. (Inr (script_judge out), w)),
      fetch_modify_file_commands = (\<lambda>path cr w. (Inr [], w)),
      client_enter = (\<lambda>w. (Inr (), w)),
      send_message = (\<lambda>m w. (Inr [], w)),
      read_response = (\<lambda>w. (Inr [], w)),
      client_exit = (\<lambda>w. w)\<rparr>"

text \<open>
  A store with one goal whose second command of three has failed. The \<^verbatim>\<open>GoalReport\<close>
  is at address 0, its command reports are the list at address 0 and its modification
  reports the list at address 1, which is empty.
\<close>

definition goal0 :: goal_report where
  "goal0 = \<lparr>goal_name = ''build'', goal_description = ''build the project'',
            command_reports = 0, modify_command_reports = 1\<rparr>"

definition reports0 :: "command_report list" where
  "reports0 =
     [\<lparr>command = ''cd repo'', success = Some True, insights = Some ''fine''\<rparr>,
      \<lparr>command = ''make'', success = Some False, insights = Some ''no makefile''\<rparr>,
      \<lparr>command = ''ls'', success = Some True, insights = Some ''fine''\<rparr>]"

definition store0 :: heap where
  "store0 = \<lparr>goal_objs = (\<lambda>a. goal0), list_objs = (\<lambda>a. [])(0 := reports0), next_ref = 2\<rparr>"

section \<open>Vocabulary of the properties\<close>

text \<open>
  \<open>marker_free_reads E m chunks s\<close> is the state reached when the next reads of the
  process deliver exactly the chunks \<open>chunks\<close>, none of which contains the marker; it
  is \<open>None\<close> when the process behaves otherwise.
\<close>

fun marker_free_reads :: "'w env \<Rightarrow> string \<Rightarrow> string list \<Rightarrow> 'w sess \<Rightarrow> 'w sess option" where
  "marker_free_reads E m [] s = Some s"
| "marker_free_reads E m (c # cs) s =
    (case do_read E 1024 2000 s of
       (Inr output, s') \<Rightarrow>
         if output = c \<and> \<not> sublist m c then marker_free_reads E m cs s' else None
     | (Inl e, s') \<Rightarrow> None)"

text \<open>
  What \<^verbatim>\<open>collect_output\<close> hands back when, with \<open>acc\<close> accumulated, a read ends the
  loop: a chunk that contains the marker, a timeout, the end of the stream, or an
  exception that is not caught. A marker-free chunk does not end the loop.
\<close>

definition collected :: "string \<Rightarrow> string \<Rightarrow> exn + string \<Rightarrow> (exn + string) option" where
  "collected m acc r = (case r of
     Inr c \<Rightarrow> if sublist m c then Some (Inr (acc @ c)) else None
   | Inl TIMEOUT \<Rightarrow> Some (Inr acc)
   | Inl EOF \<Rightarrow> Some (Inr acc)
   | Inl (Failure x) \<Rightarrow> Some (Inl (Failure x)))"



text \<open>
  The calls made while the output of one command is collected: reads, oracle calls and
  the delivery of input. Spawning, drawing a token, submitting a command to the peer,
  judging and the calls of the socket's scope are not among them.
\<close>

fun collecting :: "event \<Rightarrow> bool" where
  "collecting (ReadNonblocking n t) = True"
| "collecting (Sendline l) = True"
| "collecting (ProvideInput text) = True"
| "collecting (SendMessage (Input i)) = True"
| "collecting ReadResponse = True"
| "collecting e = False"

text \<open>
  \<open>sequenced run commands reports s\<close> is the state reached when the round trips of the
  commands, run one after the other from \<open>s\<close>, each in the state its predecessor left,
  all return normally and the \<open>i\<close>-th one returns the \<open>i\<close>-th report; otherwise it is \<open>None\<close>.
\<close>

fun sequenced ::
  "(string \<Rightarrow> 'w sess \<Rightarrow> ((exn + command_report) \<times> 'w sess) option)
    \<Rightarrow> string list \<Rightarrow> command_report list \<Rightarrow> 'w sess \<Rightarrow> 'w sess option" where
  "sequenced run [] [] s = Some s"
| "sequenced run (c # cs) (r # rs) s =
    (case run c s of
       Some (Inr r', s1) \<Rightarrow> if r' = r then sequenced run cs rs s1 else None
     | _ \<Rightarrow> None)"
| "sequenced run _ _ s = None"

fun is_fetch :: "event \<Rightarrow> bool" where
  "is_fetch (FetchModify path cr) = True"
| "is_fetch e = False"

text \<open>
  \<open>repaired E path reports batches s\<close> is the state reached when, walking \<open>reports\<close> in
  order from \<open>s\<close>, corrective commands are requested for each report that is not a
  success and for no other, each request returns the commands of the next batch, and the
  local executor, run on them, returns the reports of that batch; it is \<open>None\<close> when a
  request or a run fails or does not return, or the batches are other than these.
\<close>

fun repaired ::
  "'w env \<Rightarrow> string \<Rightarrow> command_report list \<Rightarrow> (string list \<times> command_report list) list
     \<Rightarrow> 'w sess \<Rightarrow> 'w sess option" where
  "repaired E path [] batches s = (if batches = [] then Some s else None)"
| "repaired E path (cr # crs) batches s =
    (if not_success cr then
       (case batches of
          [] \<Rightarrow> None
        | (cmds, reps) # batches' \<Rightarrow>
            (case do_fetch_modify E path cr s of
               (Inl e, s1) \<Rightarrow> None
             | (Inr modify_commands, s1) \<Rightarrow>
                 if modify_commands = cmds then
                   (case local_execute_commands_sync E cmds s1 of
                      Some (Inr modify_report, s2) \<Rightarrow>
                        if modify_report = reps then repaired E path crs batches' s2 else None
                    | _ \<Rightarrow> None)
                 else None))
     else repaired E path crs batches s)"

section \<open>Properties\<close>

lemmas prims = emit_def do_spawn_def do_read_def do_sendline_def do_uuid4_def do_provide_input_def
  do_analyze_output_def do_fetch_modify_def do_client_enter_def do_send_message_def
  do_read_response_def do_client_exit_def

lemmas script_simps = script_env_def script_read_def script_answer_def script_response_def
  script_judge_def start_def

subsection \<open>C9: an empty oracle answer\<close>



subsection \<open>C2: collect\_output\<close>

lemma collect_loop_not_caught:
  "collect_loop E m acc s = Some y \<Longrightarrow> fst y \<noteq> Inl TIMEOUT \<and> fst y \<noteq> Inl EOF"
proof (induction rule: collect_loop.raw_induct[rotated 1, consumes 1])
  case (1 f E m acc s y)
  obtain r s' where r: "do_read E 1024 2000 s = (r, s')" by (cases "do_read E 1024 2000 s")
  from "1.hyps" show ?case unfolding r
    by (auto split: sum.splits exn.splits if_splits dest: "1.IH")
qed

lemma chatty_read: "do_read chatty_env n t s = (Inr ''y'', emit (ReadNonblocking n t) () s)"
  by (simp add: do_read_def chatty_env_def)

lemma chatty_never_returns:
  "collect_loop E m acc s = Some y \<Longrightarrow> E = chatty_env \<Longrightarrow> \<not> sublist m ''y'' \<Longrightarrow> False"
proof (induction rule: collect_loop.raw_induct[rotated 1, consumes 1])
  case (1 f E m acc s y)
  from "1.hyps" "1.prems"
  have "f chatty_env m (acc @ ''y'') (emit (ReadNonblocking 1024 2000) () s) = Some y"
    by (simp add: chatty_read)
  then show ?case using "1.IH" "1.prems" by blast
qed

lemma collect_loop_stops:
  "marker_free_reads E m chunks s = Some s1 \<Longrightarrow> do_read E 1024 2000 s1 = (r, s2)
   \<Longrightarrow> collected m (acc @ concat chunks) r = Some res
   \<Longrightarrow> collect_loop E m acc s = Some (res, s2)
     \<and> trace s2 = trace s @ replicate (Suc (length chunks)) (ReadNonblocking 1024 2000)"
proof (induction chunks arbitrary: s acc)
  case Nil
  then show ?case
    by (subst collect_loop.simps)
      (auto simp: collected_def do_read_def emit_def
            split: sum.splits exn.splits if_splits prod.splits)
next
  case (Cons c cs)
  from Cons.prems(1) obtain s' where
    r: "do_read E 1024 2000 s = (Inr c, s')" and nm: "\<not> sublist m c"
    and rest: "marker_free_reads E m cs s' = Some s1"
    by (auto split: prod.splits sum.splits if_splits)
  from r have tr: "trace s' = trace s @ [ReadNonblocking 1024 2000]"
    by (auto simp: do_read_def emit_def split: prod.splits)
  from Cons.IH[OF rest Cons.prems(2), of "acc @ c" ] Cons.prems(3)
  have "collect_loop E m (acc @ c) s' = Some (res, s2)
     \<and> trace s2 = trace s' @ replicate (Suc (length cs)) (ReadNonblocking 1024 2000)"
    by simp
  then show ?case
    by (subst collect_loop.simps) (simp add: r nm tr replicate_append_same)
qed

text \<open>
  C2, as stated, fails twice. The marker \<^verbatim>\<open>Completed 7\<close> that arrives split over two
  reads is complete in the stream after the second read, yet \<^verbatim>\<open>collect_output\<close> reads
  on: it takes the next chunk too and returns only when the fourth read times out. And on
  a process that has a marker-free chunk ready at every read it never returns.
\<close>

theorem collect_output_counterexample:
  "collect_output script_env ''Completed 7''
      (start [Inr ''Comp'', Inr ''leted 7'', Inr ''x''] [] [])
    = Some (Inr ''Completed 7x'',
        \<lparr>world = \<lparr>reads = [], answers = [], responses = []\<rparr>,
         trace = [ReadNonblocking 1024 2000, ReadNonblocking 1024 2000,
                  ReadNonblocking 1024 2000, ReadNonblocking 1024 2000]\<rparr>)
   \<and> collect_output chatty_env ''Completed 7'' \<lparr>world = (), trace = []\<rparr> = None"
proof -
  have "collect_output chatty_env ''Completed 7'' \<lparr>world = (), trace = []\<rparr> = None"
  proof (cases "collect_output chatty_env ''Completed 7'' \<lparr>world = (), trace = []\<rparr>")
    case (Some y)
    then show ?thesis
      using chatty_never_returns[of chatty_env "''Completed 7''" "[]" _ y]
      by (simp add: collect_output_def sublist_code)
  qed simp
  then show ?thesis
    by (simp add: collect_output_def collect_loop.simps prims script_simps sublist_code)
qed

text \<open>
  C2, amended. When the next reads deliver \<open>k\<close> marker-free chunks and the read after
  them delivers a chunk that contains the whole marker, times out, or meets the end of
  the stream, \<^verbatim>\<open>collect_output\<close> returns after exactly \<open>k + 1\<close> reads, with no read
  after that one. It returns every chunk read, concatenated; on a timeout or at the end
  of the stream that is the partial output, not an error.
\<close>

theorem collect_output_returns_at_first_stop:
  assumes "marker_free_reads E m chunks s = Some s1"
    and "do_read E 1024 2000 s1 = (r, s2)"
    and "collected m (concat chunks) r = Some res"
  shows "collect_output E m s = Some (res, s2)
     \<and> trace s2 = trace s @ replicate (Suc (length chunks)) (ReadNonblocking 1024 2000)"
  using collect_loop_stops[OF assms(1,2), of "[]" res] assms(3)
  by (simp add: collect_output_def)

theorem collect_output_returns_at_first_stop_witness:
  "marker_free_reads script_env ''Completed 7'' [''ab'', ''cd'']
      (start [Inr ''ab'', Inr ''cd'', Inl TIMEOUT, Inr ''late''] [] [])
    = Some \<lparr>world = \<lparr>reads = [Inl TIMEOUT, Inr ''late''], answers = [], responses = []\<rparr>,
            trace = [ReadNonblocking 1024 2000, ReadNonblocking 1024 2000]\<rparr>
   \<and> collected ''Completed 7'' (concat [''ab'', ''cd'']) (Inl TIMEOUT) = Some (Inr ''abcd'')
   \<and> collect_output script_env ''Completed 7''
        (start [Inr ''ab'', Inr ''cd'', Inl TIMEOUT, Inr ''late''] [] [])
      = Some (Inr ''abcd'',
          \<lparr>world = \<lparr>reads = [Inr ''late''], answers = [], responses = []\<rparr>,
           trace = [ReadNonblocking 1024 2000, ReadNonblocking 1024 2000,
                    ReadNonblocking 1024 2000]\<rparr>)"
proof -
  let ?init = "start [Inr ''ab'', Inr ''cd'', Inl TIMEOUT, Inr ''late''] [] []"
  let ?mid = "\<lparr>world = \<lparr>reads = [Inl TIMEOUT, Inr ''late''], answers = [], responses = []\<rparr>,
            trace = [ReadNonblocking 1024 2000, ReadNonblocking 1024 2000]\<rparr>"
  let ?fin = "\<lparr>world = \<lparr>reads = [Inr ''late''], answers = [], responses = []\<rparr>,
           trace = [ReadNonblocking 1024 2000, ReadNonblocking 1024 2000,
                    ReadNonblocking 1024 2000]\<rparr>"
  have h1: "marker_free_reads script_env ''Completed 7'' [''ab'', ''cd''] ?init = Some ?mid"
    by (simp add: prims script_simps sublist_code)
  have h2: "do_read script_env 1024 2000 ?mid = (Inl TIMEOUT, ?fin)"
    by (simp add: prims script_simps)
  have h3: "collected ''Completed 7'' (concat [''ab'', ''cd'']) (Inl TIMEOUT) = Some (Inr ''abcd'')"
    by (simp add: collected_def)
  show ?thesis
    using h1 h3 collect_output_returns_at_first_stop[OF h1 h2 h3]
    by simp
qed

subsection \<open>C3: the oracle answers that no input is needed\<close>

text \<open>
  C3, as stated, fails: the collector returns \<^verbatim>\<open>out\<close>, the oracle answers
  \<^verbatim>\<open>breba-noop\<close>, and the loop does not stop. It collects again (two more reads, which
  bring \<^verbatim>\<open>more\<close>), asks the oracle again, and stops only when a collection attempt
  comes back empty.
\<close>

theorem noop_stops_counterexample:
  "collect_output script_env ''Completed 7''
      (start [Inr ''out'', Inl TIMEOUT, Inr ''more'', Inl TIMEOUT] [''breba-noop''] [])
    = Some (Inr ''out'',
        \<lparr>world = \<lparr>reads = [Inr ''more'', Inl TIMEOUT], answers = [''breba-noop''],
                  responses = []\<rparr>,
         trace = [ReadNonblocking 1024 2000, ReadNonblocking 1024 2000]\<rparr>)
   \<and> provide_input script_env ''out''
        \<lparr>reads = [Inr ''more'', Inl TIMEOUT], answers = [''breba-noop''], responses = []\<rparr>
      = (Inr ''breba-noop'', \<lparr>reads = [Inr ''more'', Inl TIMEOUT], answers = [], responses = []\<rparr>)
   \<and> command_loop script_env ''Completed 7'' []
        (start [Inr ''out'', Inl TIMEOUT, Inr ''more'', Inl TIMEOUT] [''breba-noop''] [])
      = Some (Inr ''outmore'',
          \<lparr>world = \<lparr>reads = [], answers = [], responses = []\<rparr>,
           trace = [ReadNonblocking 1024 2000, ReadNonblocking 1024 2000,
                    ProvideInput ''out'',
                    ReadNonblocking 1024 2000, ReadNonblocking 1024 2000,
                    ProvideInput ''more'',
                    ReadNonblocking 1024 2000]\<rparr>)"
  by (simp add: command_loop.simps collect_output_def collect_loop.simps prims script_simps
      sublist_code truthy_def get_input_text_def)

text \<open>
  C3, amended. When the collector returns non-empty new output and the oracle answers
  \<^verbatim>\<open>breba-noop\<close>, nothing is sent into the session (the oracle call is the only
  addition to the trace) and the loop goes back to the collector for another attempt,
  with the new output appended. Collection for the command stops when a collection
  attempt returns no new output.
\<close>

theorem noop_goes_back_to_collection:
  assumes "collect_output E m s = Some (Inr new_output, s1)"
    and "provide_input E new_output (world s1) = (Inr ''breba-noop'', w)"
  shows "command_loop E m acc s =
           (if new_output = [] then Some (Inr acc, s1)
            else command_loop E m (acc @ new_output) (emit (ProvideInput new_output) w s1))"
  by (subst command_loop.simps)
    (simp add: assms get_input_text_def do_provide_input_def truthy_def)

theorem noop_goes_back_to_collection_witness:
  "collect_output script_env ''Completed 7'' (start [Inr ''out'', Inl TIMEOUT, Inr ''more''] [] [])
    = Some (Inr ''out'',
        \<lparr>world = \<lparr>reads = [Inr ''more''], answers = [], responses = []\<rparr>,
         trace = [ReadNonblocking 1024 2000, ReadNonblocking 1024 2000]\<rparr>)
   \<and> provide_input script_env ''out'' \<lparr>reads = [Inr ''more''], answers = [], responses = []\<rparr>
      = (Inr ''breba-noop'', \<lparr>reads = [Inr ''more''], answers = [], responses = []\<rparr>)
   \<and> command_loop script_env ''Completed 7'' ''$ ''
        (start [Inr ''out'', Inl TIMEOUT, Inr ''more''] [] [])
      = command_loop script_env ''Completed 7'' ''$ out''
          \<lparr>world = \<lparr>reads = [Inr ''more''], answers = [], responses = []\<rparr>,
           trace = [ReadNonblocking 1024 2000, ReadNonblocking 1024 2000,
                    ProvideInput ''out'']\<rparr>"
proof -
  let ?init = "start [Inr ''out'', Inl TIMEOUT, Inr ''more''] [] []"
  let ?mid = "\<lparr>world = \<lparr>reads = [Inr ''more''], answers = [], responses = []\<rparr>,
         trace = [ReadNonblocking 1024 2000, ReadNonblocking 1024 2000]\<rparr>"
  let ?after = "\<lparr>reads = [Inr ''more''], answers = [], responses = []\<rparr>"
  have h1: "collect_output script_env ''Completed 7'' ?init = Some (Inr ''out'', ?mid)"
    by (simp add: collect_output_def collect_loop.simps prims script_simps sublist_code)
  have h2: "provide_input script_env ''out'' (world ?mid) = (Inr ''breba-noop'', ?after)"
    by (simp add: script_simps)
  show ?thesis
    using h1 h2 noop_goes_back_to_collection[OF h1 h2, of "''$ ''"]
    by (simp add: emit_def)
qed

subsection \<open>C8: the completion marker protocol\<close>

text \<open>
  C8. For every raw command, \<^verbatim>\<open>execute_commands_sync\<close> of the local executor first
  sends \<^verbatim>\<open>echo\<close> of the shell-quoted command, then draws a fresh token, and then sends
  the command followed by \<^verbatim>\<open>&& echo Completed <token>\<close> as it is; collection for the
  command starts in the state that these three calls leave, watching for that marker.
\<close>

theorem echo_then_wrapped_command:
  "run_command E cmd s =
     (let echoed = ''echo '' @ shlex_quote E cmd @ [CHR 0x0A];
          (command_id, w) = uuid4 E (sendline E echoed (world s));
          command_end_marker = ''Completed '' @ command_id;
          wrapped = cmd @ '' && echo '' @ command_end_marker
      in Option.bind
           (command_loop E command_end_marker []
              \<lparr>world = sendline E wrapped w,
               trace = trace s @ [Sendline echoed, Uuid4, Sendline wrapped]\<rparr>)
           (\<lambda>(r, s4). case r of
               Inl e \<Rightarrow> Some (Inl e, s4)
             | Inr command_output \<Rightarrow>
                 (case do_analyze_output E command_output s4 of
                    (Inl e, s5) \<Rightarrow> Some (Inl e, s5)
                  | (Inr agent_output, s5) \<Rightarrow> Some (Inr agent_output, s5))))"
  by (simp add: run_command_def Let_def do_sendline_def do_uuid4_def emit_def split: prod.splits)

subsection \<open>C10: the startup read\<close>

text \<open>
  C10. When the read that drains the startup banner (size 1024, timeout 0.5 s) raises
  \<^verbatim>\<open>TIMEOUT\<close>, \<^verbatim>\<open>execute_commands_sync\<close> of the local executor ends with that
  exception and no report; the shell was spawned and read once, and nothing was sent to
  it. The reads of \<^verbatim>\<open>collect_output\<close> never let a \<^verbatim>\<open>TIMEOUT\<close> out.
\<close>

theorem startup_timeout_propagates:
  assumes "read_nonblocking E 1024 500 (spawn E (world s)) = (Inl TIMEOUT, w)"
  shows "local_execute_commands_sync E commands s
           = Some (Inl TIMEOUT, \<lparr>world = w, trace = trace s @ [Spawn, ReadNonblocking 1024 500]\<rparr>)
       \<and> (\<forall>m s0 s1. collect_output E m s0 \<noteq> Some (Inl TIMEOUT, s1))"
proof -
  have "\<And>m s0 s1. collect_output E m s0 \<noteq> Some (Inl TIMEOUT, s1)"
    using collect_loop_not_caught unfolding collect_output_def by fastforce
  then show ?thesis using assms
    by (simp add: local_execute_commands_sync_def prims)
qed

theorem startup_timeout_propagates_witness:
  "read_nonblocking script_env 1024 500 (spawn script_env (world (start [Inl TIMEOUT] [] [])))
      = (Inl TIMEOUT, \<lparr>reads = [], answers = [], responses = []\<rparr>)
   \<and> local_execute_commands_sync script_env [''ls'', ''pwd''] (start [Inl TIMEOUT] [] [])
      = Some (Inl TIMEOUT, \<lparr>world = \<lparr>reads = [], answers = [], responses = []\<rparr>,
                            trace = [Spawn, ReadNonblocking 1024 500]\<rparr>)"
proof -
  have h: "read_nonblocking script_env 1024 500
             (spawn script_env (world (start [Inl TIMEOUT] [] [])))
      = (Inl TIMEOUT, \<lparr>reads = [], answers = [], responses = []\<rparr>)"
    by (simp add: script_simps)
  show ?thesis
    using h startup_timeout_propagates[OF h, of "[''ls'', ''pwd'']"]
    by (simp add: start_def)
qed

subsection \<open>C4: collect\_response\<close>










subsection \<open>C1: one report per command, in order\<close>

lemma do_read_trace:
  "do_read E n t s = (r, s') \<Longrightarrow> trace s' = trace s @ [ReadNonblocking n t]"
  by (auto simp: do_read_def emit_def split: prod.splits)

lemma collect_loop_trace:
  "collect_loop E m acc s = Some y \<Longrightarrow>
     \<exists>mid. trace (snd y) = trace s @ mid \<and> list_all collecting mid"
proof (induction rule: collect_loop.raw_induct[rotated 1, consumes 1])
  case (1 f E m acc s y)
  obtain r s1 where r: "do_read E 1024 2000 s = (r, s1)" by (cases "do_read E 1024 2000 s")
  note tr = do_read_trace[OF r]
  show ?case
  proof (cases "\<exists>chunk. r = Inr chunk \<and> \<not> sublist m chunk")
    case True
    then obtain chunk where o: "r = Inr chunk" "\<not> sublist m chunk" by blast
    with "1.hyps" have "f E m (acc @ chunk) s1 = Some y" unfolding r by simp
    from "1.IH"[OF this]
    obtain mid where "trace (snd y) = trace s1 @ mid" "list_all collecting mid" by blast
    then show ?thesis using tr
      by (intro exI[of _ "ReadNonblocking 1024 2000 # mid"]) simp
  next
    case False
    with "1.hyps" have "snd y = s1" unfolding r
      by (auto split: sum.splits exn.splits if_splits)
    then show ?thesis using tr by (intro exI[of _ "[ReadNonblocking 1024 2000]"]) simp
  qed
qed

lemma get_input_text_trace:
  "get_input_text E text s = (r, s') \<Longrightarrow> trace s' = trace s @ [ProvideInput text]"
  by (auto simp: get_input_text_def do_provide_input_def emit_def split: prod.splits sum.splits)

lemma command_loop_trace:
  "command_loop E m acc s = Some y \<Longrightarrow>
     \<exists>mid. trace (snd y) = trace s @ mid \<and> list_all collecting mid"
proof (induction rule: command_loop.raw_induct[rotated 1, consumes 1])
  case (1 f E m acc s y)
  from "1.hyps" obtain r s1 where co: "collect_output E m s = Some (r, s1)"
    by (cases "collect_output E m s") auto
  from collect_loop_trace[OF co[unfolded collect_output_def]]
  obtain mid1 where m1: "trace s1 = trace s @ mid1" "list_all collecting mid1" by auto
  show ?case
  proof (cases r)
    case (Inl e)
    with "1.hyps" co have "snd y = s1" by auto
    then show ?thesis using m1 by auto
  next
    case (Inr new_output)
    show ?thesis
    proof (cases "new_output = []")
      case True
      with "1.hyps" co Inr have "snd y = s1" by auto
      then show ?thesis using m1 by auto
    next
      case False
      obtain g s2 where g: "get_input_text E new_output s1 = (g, s2)"
        by (cases "get_input_text E new_output s1")
      note t2 = get_input_text_trace[OF g]
      show ?thesis
      proof (cases g)
        case (Inl e)
        with "1.hyps" co Inr False g have "snd y = s2" by auto
        then show ?thesis using m1 t2 by auto
      next
        case inr: (Inr input_text)
        show ?thesis
        proof (cases "truthy input_text")
          case True
          with "1.hyps" co Inr False g inr
          have "f E m (acc @ new_output @ the input_text @ linesep E)
                  (do_sendline E (the input_text) s2) = Some y" by simp
          from "1.IH"[OF this] obtain mid where
            "trace (snd y) = trace (do_sendline E (the input_text) s2) @ mid"
            "list_all collecting mid" by blast
          then show ?thesis using m1 t2
            by (intro exI[of _ "mid1 @ [ProvideInput new_output, Sendline (the input_text)] @ mid"])
               (simp add: do_sendline_def emit_def)
        next
          case F: False
          with "1.hyps" co Inr False g inr
          have "f E m (acc @ new_output) s2 = Some y" by simp
          from "1.IH"[OF this] obtain mid where
            "trace (snd y) = trace s2 @ mid" "list_all collecting mid" by blast
          then show ?thesis using m1 t2
            by (intro exI[of _ "mid1 @ [ProvideInput new_output] @ mid"]) simp
        qed
      qed
    qed
  qed
qed



lemma sequenced_length: "sequenced run cmds reports s = Some s' \<Longrightarrow> length reports = length cmds"
  by (induction run cmds reports s rule: sequenced.induct)
     (auto split: option.splits prod.splits sum.splits if_splits)

lemma local_for_sequenced:
  "local_for E cmds report s = Some (Inr reports, s') \<longleftrightarrow>
     (\<exists>rs. reports = report @ rs \<and> sequenced (run_command E) cmds rs s = Some s')"
proof (induction cmds arbitrary: report s)
  case Nil
  show ?case
  proof
    assume "\<exists>rs. reports = report @ rs \<and> sequenced (run_command E) [] rs s = Some s'"
    then obtain rs where "reports = report @ rs" "sequenced (run_command E) [] rs s = Some s'"
      by blast
    then show "local_for E [] report s = Some (Inr reports, s')" by (cases rs) auto
  qed auto
next
  case (Cons c cs)
  show ?case
  proof
    assume l: "local_for E (c # cs) report s = Some (Inr reports, s')"
    then obtain r s1 where rc: "run_command E c s = Some (Inr r, s1)"
      and rest: "local_for E cs (report @ [r]) s1 = Some (Inr reports, s')"
      by (auto split: Option.bind_splits sum.splits)
    from rest Cons.IH obtain rs where "reports = (report @ [r]) @ rs"
      "sequenced (run_command E) cs rs s1 = Some s'" by blast
    then show "\<exists>rs. reports = report @ rs \<and> sequenced (run_command E) (c # cs) rs s = Some s'"
      using rc by (intro exI[of _ "r # rs"]) simp
  next
    assume "\<exists>rs. reports = report @ rs \<and> sequenced (run_command E) (c # cs) rs s = Some s'"
    then obtain rs where rs: "reports = report @ rs"
      and sq: "sequenced (run_command E) (c # cs) rs s = Some s'" by blast
    from sq obtain r rs' s1 where "rs = r # rs'" and rc: "run_command E c s = Some (Inr r, s1)"
      and rest: "sequenced (run_command E) cs rs' s1 = Some s'"
      by (cases rs) (auto split: option.splits prod.splits sum.splits if_splits)
    with rs Cons.IH[of "report @ [r]" s1]
    have "local_for E cs (report @ [r]) s1 = Some (Inr reports, s')" by auto
    with rc show "local_for E (c # cs) report s = Some (Inr reports, s')" by simp
  qed
qed



lemmas run_simps = local_execute_commands_sync_def container_execute_commands_sync_def
  run_command_def container_command_def command_loop.simps collect_output_def
  collect_loop.simps collect_response.simps get_input_text_def get_input_message_def
  truthy_def Let_def sublist_code


subsection \<open>C7: the repair loop\<close>

lemma iadd_heap:
  "iadd_modify_command_reports cg rep h =
     h\<lparr>list_objs := (list_objs h)(modify_command_reports (goal_objs h cg)
          := list_objs h (modify_command_reports (goal_objs h cg)) @ rep)\<rparr>"
  by (simp add: iadd_modify_command_reports_def Let_def)

lemma repaired_Nil_iff: "repaired E path [] bs s = Some s' \<longleftrightarrow> bs = [] \<and> s' = s"
  by auto

lemma mutator_loop_repaired:
  assumes "ra \<noteq> modify_command_reports (goal_objs h cg)"
  shows "repaired E path (drop i (list_objs h ra)) bs s = Some s' \<Longrightarrow>
    mutator_loop E path cg ra i (h, s) =
      Some (Inr (), h\<lparr>list_objs := (list_objs h)(modify_command_reports (goal_objs h cg)
          := list_objs h (modify_command_reports (goal_objs h cg)) @ concat (map snd bs))\<rparr>, s')"
  using assms
proof (induction "length (list_objs h ra) - i" arbitrary: i h s bs)
  case 0
  then have "drop i (list_objs h ra) = []" by simp
  with "0.prems" have "bs = []" "s' = s" by (auto split: if_splits)
  with 0 show ?case by (subst mutator_loop.simps) simp
next
  case (Suc n)
  let ?ma = "modify_command_reports (goal_objs h cg)"
  from Suc.hyps(2) have lt: "i < length (list_objs h ra)" by simp
  then have dr: "drop i (list_objs h ra) = list_objs h ra ! i # drop (Suc i) (list_objs h ra)"
    by (simp add: Cons_nth_drop_Suc)
  let ?cr = "list_objs h ra ! i"
  show ?case
  proof (cases "not_success ?cr")
    case False
    with Suc.prems dr have "repaired E path (drop (Suc i) (list_objs h ra)) bs s = Some s'"
      by simp
    from Suc.hyps(1)[OF _ this Suc.prems(2)] Suc.hyps(2)
    show ?thesis using lt False by (subst mutator_loop.simps) simp
  next
    case True
    from Suc.prems(1) True dr obtain cmds reps bs' s1 s2 where bs: "bs = (cmds, reps) # bs'"
      and f: "do_fetch_modify E path ?cr s = (Inr cmds, s1)"
      and l: "local_execute_commands_sync E cmds s1 = Some (Inr reps, s2)"
      and rest: "repaired E path (drop (Suc i) (list_objs h ra)) bs' s2 = Some s'"
      by (auto split: list.splits prod.splits sum.splits option.splits if_splits)
    let ?h1 = "iadd_modify_command_reports cg reps h"
    have same: "list_objs ?h1 ra = list_objs h ra" "goal_objs ?h1 = goal_objs h"
      using Suc.prems(2) by (simp_all add: iadd_heap)
    have "mutator_loop E path cg ra (Suc i) (?h1, s2) =
      Some (Inr (), ?h1\<lparr>list_objs := (list_objs ?h1)(modify_command_reports (goal_objs ?h1 cg)
          := list_objs ?h1 (modify_command_reports (goal_objs ?h1 cg)) @ concat (map snd bs'))\<rparr>, s')"
      using Suc.hyps(1)[of ?h1 "Suc i" bs' s2] Suc.hyps(2) rest Suc.prems(2) same by simp
    then show ?thesis using lt True f l bs
      by (subst mutator_loop.simps) (simp add: iadd_heap)
  qed
qed

lemma mutator_loop_returns:
  assumes "ra \<noteq> modify_command_reports (goal_objs h cg)"
  shows "mutator_loop E path cg ra i (h, s) = Some (Inr u, h', s') \<Longrightarrow>
    \<exists>bs. repaired E path (drop i (list_objs h ra)) bs s = Some s'"
  using assms
proof (induction "length (list_objs h ra) - i" arbitrary: i h s)
  case 0
  then show ?case by (subst (asm) mutator_loop.simps) auto
next
  case (Suc n)
  from Suc.hyps(2) have lt: "i < length (list_objs h ra)" by simp
  then have dr: "drop i (list_objs h ra) = list_objs h ra ! i # drop (Suc i) (list_objs h ra)"
    by (simp add: Cons_nth_drop_Suc)
  let ?cr = "list_objs h ra ! i"
  show ?case
  proof (cases "not_success ?cr")
    case False
    with Suc.prems(1) lt have "mutator_loop E path cg ra (Suc i) (h, s) = Some (Inr u, h', s')"
      by (subst (asm) mutator_loop.simps) simp
    moreover have "n = length (list_objs h ra) - Suc i" using Suc.hyps(2) by simp
    ultimately obtain bs where
      "repaired E path (drop (Suc i) (list_objs h ra)) bs s = Some s'"
      using Suc.hyps(1)[of h "Suc i" s] Suc.prems(2) by blast
    then show ?thesis using dr False by auto
  next
    case True
    from Suc.prems(1) lt True obtain cmds reps s1 s2 where
      f: "do_fetch_modify E path ?cr s = (Inr cmds, s1)"
      and l: "local_execute_commands_sync E cmds s1 = Some (Inr reps, s2)"
      and rest: "mutator_loop E path cg ra (Suc i) (iadd_modify_command_reports cg reps h, s2)
                  = Some (Inr u, h', s')"
      by (subst (asm) mutator_loop.simps)
         (auto split: prod.splits sum.splits Option.bind_splits)
    let ?h1 = "iadd_modify_command_reports cg reps h"
    have same: "list_objs ?h1 ra = list_objs h ra" "goal_objs ?h1 = goal_objs h"
      using Suc.prems(2) by (simp_all add: iadd_heap)
    have "n = length (list_objs ?h1 ra) - Suc i" using Suc.hyps(2) same by simp
    from Suc.hyps(1)[of ?h1 "Suc i" s2, OF this rest] Suc.prems(2) same
    obtain bs where "repaired E path (drop (Suc i) (list_objs h ra)) bs s2 = Some s'" by auto
    then have "repaired E path (drop i (list_objs h ra)) ((cmds, reps) # bs) s = Some s'"
      using dr True f l by simp
    then show ?thesis by blast
  qed
qed


lemma collecting_not_fetch: "list_all collecting mid \<Longrightarrow> filter is_fetch mid = []"
proof (induction mid)
  case (Cons e mid)
  then show ?case by (cases e rule: collecting.cases) auto
qed simp

lemma run_command_no_fetch:
  assumes "run_command E c s = Some y"
  shows "\<exists>new. trace (snd y) = trace s @ new \<and> filter is_fetch new = []"
proof -
  let ?echoed = "''echo '' @ shlex_quote E c @ [CHR 0x0A]"
  obtain u w2 where u: "uuid4 E (sendline E ?echoed (world s)) = (u, w2)"
    by (cases "uuid4 E (sendline E ?echoed (world s))")
  let ?wrapped = "c @ '' && echo Completed '' @ u"
  let ?s3 = "\<lparr>world = sendline E ?wrapped w2,
             trace = trace s @ [Sendline ?echoed, Uuid4, Sendline ?wrapped]\<rparr>"
  from assms u obtain r s4 where
    cl: "command_loop E (''Completed '' @ u) [] ?s3 = Some (r, s4)"
    and y: "(case r of Inl e \<Rightarrow> Some (Inl e, s4)
             | Inr command_output \<Rightarrow>
                (case do_analyze_output E command_output s4 of
                   (Inl e, s5) \<Rightarrow> Some (Inl e, s5)
                 | (Inr agent_output, s5) \<Rightarrow> Some (Inr agent_output, s5))) = Some y"
    by (auto simp: run_command_def Let_def do_sendline_def do_uuid4_def emit_def
             split: prod.splits Option.bind_splits)
  from command_loop_trace[OF cl] obtain mid where
    mid: "trace s4 = trace ?s3 @ mid" "list_all collecting mid" by auto
  from y have "trace (snd y) = trace s4 \<or> (\<exists>out. trace (snd y) = trace s4 @ [AnalyzeOutput out])"
    by (auto simp: do_analyze_output_def emit_def split: sum.splits prod.splits)
  with mid collecting_not_fetch[OF mid(2)] show ?thesis by auto
qed

lemma local_for_no_fetch:
  "local_for E cmds report s = Some y \<Longrightarrow>
     \<exists>new. trace (snd y) = trace s @ new \<and> filter is_fetch new = []"
proof (induction cmds arbitrary: report s)
  case Nil
  then show ?case by auto
next
  case (Cons c cs)
  from Cons.prems obtain r s1 where rc: "run_command E c s = Some (r, s1)"
    by (auto split: Option.bind_splits)
  from run_command_no_fetch[OF rc] obtain new1 where
    n1: "trace s1 = trace s @ new1" "filter is_fetch new1 = []" by auto
  show ?case
  proof (cases r)
    case (Inl e)
    with Cons.prems rc have "snd y = s1" by auto
    with n1 show ?thesis by auto
  next
    case (Inr rep)
    with Cons.prems rc have "local_for E cs (report @ [rep]) s1 = Some y" by simp
    from Cons.IH[OF this] n1 show ?thesis by auto
  qed
qed

lemma local_execute_no_fetch:
  assumes "local_execute_commands_sync E cmds s = Some y"
  shows "\<exists>new. trace (snd y) = trace s @ new \<and> filter is_fetch new = []"
proof -
  obtain r s2 where r: "do_read E 1024 500 (do_spawn E s) = (r, s2)"
    by (cases "do_read E 1024 500 (do_spawn E s)")
  then have t2: "trace s2 = trace s @ [Spawn, ReadNonblocking 1024 500]"
    by (auto simp: do_read_def do_spawn_def emit_def split: prod.splits)
  show ?thesis
  proof (cases r)
    case (Inl e)
    with assms r have "snd y = s2" by (auto simp: local_execute_commands_sync_def Let_def)
    with t2 show ?thesis by auto
  next
    case (Inr banner)
    with assms r have "local_for E cmds [] s2 = Some y"
      by (simp add: local_execute_commands_sync_def Let_def)
    from local_for_no_fetch[OF this] t2 show ?thesis by auto
  qed
qed

lemma local_execute_length:
  assumes "local_execute_commands_sync E cmds s = Some (Inr reps, s')"
  shows "length reps = length cmds"
proof -
  from assms obtain s2 where "local_for E cmds [] s2 = Some (Inr reps, s')"
    by (auto simp: local_execute_commands_sync_def Let_def split: prod.splits sum.splits)
  then show ?thesis using local_for_sequenced[of E cmds "[]" s2 reps s'] sequenced_length
    by fastforce
qed

lemma repaired_batches:
  "repaired E path crs bs s = Some s' \<Longrightarrow>
     length bs = length (filter not_success crs)
     \<and> (\<forall>(cmds, reps) \<in> set bs. length reps = length cmds)
     \<and> (\<exists>new. trace s' = trace s @ new
           \<and> filter is_fetch new = map (FetchModify path) (filter not_success crs))"
proof (induction crs arbitrary: bs s)
  case Nil
  then show ?case by (auto split: if_splits)
next
  case (Cons cr crs)
  show ?case
  proof (cases "not_success cr")
    case False
    with Cons.prems have "repaired E path crs bs s = Some s'" by simp
    from Cons.IH[OF this] False show ?thesis by simp
  next
    case True
    from Cons.prems True obtain cmds reps bs' s1 s2 where bs: "bs = (cmds, reps) # bs'"
      and f: "do_fetch_modify E path cr s = (Inr cmds, s1)"
      and l: "local_execute_commands_sync E cmds s1 = Some (Inr reps, s2)"
      and rest: "repaired E path crs bs' s2 = Some s'"
      by (auto split: list.splits prod.splits sum.splits option.splits if_splits)
    from f have t1: "trace s1 = trace s @ [FetchModify path cr]"
      by (auto simp: do_fetch_modify_def emit_def split: prod.splits)
    from local_execute_no_fetch[OF l] obtain new2 where
      t2: "trace s2 = trace s1 @ new2" "filter is_fetch new2 = []" by auto
    from Cons.IH[OF rest] obtain new3 where ih:
      "length bs' = length (filter not_success crs)"
      "\<forall>(cmds, reps) \<in> set bs'. length reps = length cmds"
      "trace s' = trace s2 @ new3"
      "filter is_fetch new3 = map (FetchModify path) (filter not_success crs)" by auto
    have "trace s' = trace s @ (FetchModify path cr # new2 @ new3)"
      using t1 t2 ih by simp
    moreover have "filter is_fetch (FetchModify path cr # new2 @ new3)
        = map (FetchModify path) (filter not_success (cr # crs))"
      using True t2 ih by simp
    ultimately show ?thesis using bs ih local_execute_length[OF l] True by auto
  qed
qed

lemma replace_all_heap:
  "replace_all as h = (bs, h') \<Longrightarrow>
     list_objs h' = list_objs h \<and> next_ref h \<le> next_ref h'
     \<and> (\<forall>a < next_ref h. goal_objs h' a = goal_objs h a)"
proof (induction as arbitrary: h bs h')
  case Nil
  then show ?case by simp
next
  case (Cons a as)
  obtain b h1 where b: "replace_goal a h = (b, h1)" by (cases "replace_goal a h")
  obtain bs' h2 where r: "replace_all as h1 = (bs', h2)" by (cases "replace_all as h1")
  from Cons.prems b r have h': "h' = h2" by simp
  from b have h1: "list_objs h1 = list_objs h" "next_ref h1 = Suc (next_ref h)"
    "\<forall>a < next_ref h. goal_objs h1 a = goal_objs h a"
    by (auto simp: replace_goal_def new_goal_def)
  from Cons.IH[OF r] h1 show ?case unfolding h' by auto
qed

lemma execute_mutator_commands_repaired:
  assumes ne: "refs \<noteq> []"
    and distinct: "command_reports (goal_objs h (last refs))
                     \<noteq> modify_command_reports (goal_objs h (last refs))"
    and rep: "repaired E path (command_reports_of h (last refs)) bs s = Some s'"
  shows "\<exists>refs' h'. execute_mutator_commands E path refs (h, s) = Some (Inr refs', h', s')
           \<and> modify_reports_of h' (last refs')
               = modify_reports_of h (last refs) @ concat (map snd bs)"
proof -
  let ?g = "goal_objs h (last refs)"
  let ?cg = "next_ref h"
  let ?h1 = "h\<lparr>goal_objs := (goal_objs h)(?cg := ?g), next_ref := Suc ?cg\<rparr>"
  have rg: "replace_goal (last refs) h = (?cg, ?h1)"
    by (simp add: replace_goal_def new_goal_def)
  let ?ra = "command_reports ?g"
  let ?ma = "modify_command_reports ?g"
  let ?h2 = "?h1\<lparr>list_objs := (list_objs ?h1)(?ma := list_objs ?h1 ?ma @ concat (map snd bs))\<rparr>"
  have loop: "mutator_loop E path ?cg ?ra 0 (?h1, s) = Some (Inr (), ?h2, s')"
    using mutator_loop_repaired[of ?ra ?h1 ?cg E path 0 bs s s'] distinct rep
    by (simp add: command_reports_of_def)
  obtain upd h3 where ra: "replace_all (butlast refs) ?h2 = (upd, h3)"
    by (cases "replace_all (butlast refs) ?h2")
  from replace_all_heap[OF ra] have h3: "list_objs h3 = list_objs ?h2"
    "goal_objs h3 ?cg = goal_objs ?h2 ?cg" by auto
  have "execute_mutator_commands E path refs (h, s) = Some (Inr (upd @ [?cg]), h3, s')"
    using ne rg loop ra by (simp add: execute_mutator_commands_def)
  moreover have "modify_reports_of h3 (last (upd @ [?cg]))
      = modify_reports_of h (last refs) @ concat (map snd bs)"
    using h3 by (simp add: modify_reports_of_def)
  ultimately show ?thesis by blast
qed

lemma execute_mutator_commands_returns:
  assumes distinct: "command_reports (goal_objs h (last refs))
                     \<noteq> modify_command_reports (goal_objs h (last refs))"
    and ex: "execute_mutator_commands E path refs (h, s) = Some (Inr refs', h', s')"
  shows "\<exists>bs. repaired E path (command_reports_of h (last refs)) bs s = Some s'
           \<and> modify_reports_of h' (last refs')
               = modify_reports_of h (last refs) @ concat (map snd bs)"
proof -
  from ex have ne: "refs \<noteq> []"
    by (auto simp: execute_mutator_commands_def split: if_splits)
  let ?g = "goal_objs h (last refs)"
  let ?cg = "next_ref h"
  let ?h1 = "h\<lparr>goal_objs := (goal_objs h)(?cg := ?g), next_ref := Suc ?cg\<rparr>"
  have rg: "replace_goal (last refs) h = (?cg, ?h1)"
    by (simp add: replace_goal_def new_goal_def)
  from ex ne rg obtain u h2 where
    loop: "mutator_loop E path ?cg (command_reports ?g) 0 (?h1, s) = Some (Inr u, h2, s')"
    by (auto simp: execute_mutator_commands_def split: Option.bind_splits sum.splits prod.splits)
  from mutator_loop_returns[OF _ loop] distinct obtain bs where
    "repaired E path (command_reports_of h (last refs)) bs s = Some s'"
    by (auto simp: command_reports_of_def)
  from this execute_mutator_commands_repaired[OF ne distinct this] ex show ?thesis by auto
qed

lemma execute_commands_fresh:
  assumes "execute_commands E refs0 (h0, s0) = Some (Inr refs, h, s)"
  shows "modify_reports_of h (last refs) = []
     \<and> command_reports (goal_objs h (last refs)) \<noteq> modify_command_reports (goal_objs h (last refs))"
  using assms
  by (auto simp: execute_commands_def Let_def new_list_def new_goal_def modify_reports_of_def
           split: if_splits Option.bind_splits sum.splits prod.splits)

lemma repaired_all_successful:
  "filter not_success crs = [] \<Longrightarrow> repaired E path crs [] s = Some s"
  by (induction crs) (auto split: if_splits)

text \<open>
  C7. Take a goal whose command reports and modification reports are distinct list
  objects, as they are for every goal that \<^verbatim>\<open>execute_commands\<close> has built, where the
  modification reports are moreover empty. \<^verbatim>\<open>execute_mutator_commands\<close> returns
  normally exactly when, walking the command reports in order, the request for
  corrective commands for each report that is not a success and the run of these
  commands by the local executor all return. Corrective commands are then requested
  once for each report that is not a success, in order, and for no other report; each
  batch of corrective commands yields one report per command; and the modification
  reports of the new goal report are the earlier ones followed by the reports of the
  batches. With no report that is not a success the stage returns without a request,
  and the modification reports are as they were.
\<close>

theorem repair_loop_once_per_failed_report:
  assumes "refs \<noteq> []"
    and "command_reports (goal_objs h (last refs))
           \<noteq> modify_command_reports (goal_objs h (last refs))"
  shows
   "(repaired E path (command_reports_of h (last refs)) bs s = Some s' \<longrightarrow>
       (\<exists>refs' h'. execute_mutator_commands E path refs (h, s) = Some (Inr refs', h', s')
           \<and> modify_reports_of h' (last refs')
               = modify_reports_of h (last refs) @ concat (map snd bs))
       \<and> length bs = length (filter not_success (command_reports_of h (last refs)))
       \<and> (\<forall>(cmds, reps) \<in> set bs. length reps = length cmds)
       \<and> (\<exists>new. trace s' = trace s @ new
             \<and> filter is_fetch new
                 = map (FetchModify path) (filter not_success (command_reports_of h (last refs)))))
    \<and> (execute_mutator_commands E path refs (h, s) = Some (Inr refs1, h1, s1) \<longrightarrow>
         (\<exists>bs. repaired E path (command_reports_of h (last refs)) bs s = Some s1
            \<and> modify_reports_of h1 (last refs1)
                = modify_reports_of h (last refs) @ concat (map snd bs)))
    \<and> (filter not_success (command_reports_of h (last refs)) = [] \<longrightarrow>
         (\<exists>refs' h'. execute_mutator_commands E path refs (h, s) = Some (Inr refs', h', s)
            \<and> modify_reports_of h' (last refs') = modify_reports_of h (last refs)))
    \<and> (execute_commands E refs0 (h0, s0) = Some (Inr refs, h, s) \<longrightarrow>
         modify_reports_of h (last refs) = [])"
proof -
  have a: "repaired E path (command_reports_of h (last refs)) bs s = Some s' \<longrightarrow>
       (\<exists>refs' h'. execute_mutator_commands E path refs (h, s) = Some (Inr refs', h', s')
           \<and> modify_reports_of h' (last refs')
               = modify_reports_of h (last refs) @ concat (map snd bs))
       \<and> length bs = length (filter not_success (command_reports_of h (last refs)))
       \<and> (\<forall>(cmds, reps) \<in> set bs. length reps = length cmds)
       \<and> (\<exists>new. trace s' = trace s @ new
             \<and> filter is_fetch new
                 = map (FetchModify path) (filter not_success (command_reports_of h (last refs))))"
    using execute_mutator_commands_repaired[OF assms] repaired_batches by blast
  have b: "execute_mutator_commands E path refs (h, s) = Some (Inr refs1, h1, s1) \<longrightarrow>
         (\<exists>bs. repaired E path (command_reports_of h (last refs)) bs s = Some s1
            \<and> modify_reports_of h1 (last refs1)
                = modify_reports_of h (last refs) @ concat (map snd bs))"
    using execute_mutator_commands_returns[OF assms(2)] by blast
  have c: "filter not_success (command_reports_of h (last refs)) = [] \<longrightarrow>
         (\<exists>refs' h'. execute_mutator_commands E path refs (h, s) = Some (Inr refs', h', s)
            \<and> modify_reports_of h' (last refs') = modify_reports_of h (last refs))"
    using execute_mutator_commands_repaired[OF assms, of E path "[]" s s]
      repaired_all_successful[of "command_reports_of h (last refs)" E path s]
    by auto
  have d: "execute_commands E refs0 (h0, s0) = Some (Inr refs, h, s) \<longrightarrow>
         modify_reports_of h (last refs) = []"
    using execute_commands_fresh by blast
  from a b c d show ?thesis by blast
qed

lemmas store_simps = store0_def goal0_def reports0_def command_reports_of_def
  modify_reports_of_def not_success_def

theorem repair_loop_once_per_failed_report_witness:
  "[0::nat] \<noteq> []
   \<and> command_reports (goal_objs store0 (last [0])) \<noteq> modify_command_reports (goal_objs store0 (last [0]))
   \<and> repaired script_env ''README.md'' (command_reports_of store0 (last [0]))
        [([''fix''], [script_judge ''ok Completed 7''])]
        (start [Inr ''banner'', Inr ''ok Completed 7''] [] [])
      = Some \<lparr>world = \<lparr>reads = [], answers = [], responses = []\<rparr>,
          trace = [FetchModify ''README.md''
                     \<lparr>command = ''make'', success = Some False, insights = Some ''no makefile''\<rparr>,
                   Spawn, ReadNonblocking 1024 500,
                   Sendline (''echo fix'' @ [CHR 0x0A]), Uuid4,
                   Sendline ''fix && echo Completed 7'',
                   ReadNonblocking 1024 2000, ProvideInput ''ok Completed 7'',
                   ReadNonblocking 1024 2000, AnalyzeOutput ''ok Completed 7'']\<rparr>
   \<and> (\<exists>refs' h'. execute_mutator_commands script_env ''README.md'' [0]
          (store0, start [Inr ''banner'', Inr ''ok Completed 7''] [] [])
        = Some (Inr refs', h',
            \<lparr>world = \<lparr>reads = [], answers = [], responses = []\<rparr>,
             trace = [FetchModify ''README.md''
                     \<lparr>command = ''make'', success = Some False, insights = Some ''no makefile''\<rparr>,
                   Spawn, ReadNonblocking 1024 500,
                   Sendline (''echo fix'' @ [CHR 0x0A]), Uuid4,
                   Sendline ''fix && echo Completed 7'',
                   ReadNonblocking 1024 2000, ProvideInput ''ok Completed 7'',
                   ReadNonblocking 1024 2000, AnalyzeOutput ''ok Completed 7'']\<rparr>)
        \<and> modify_reports_of h' (last refs') = [script_judge ''ok Completed 7''])"
proof -
  let ?init = "start [Inr ''banner'', Inr ''ok Completed 7''] [] []"
  let ?fin = "\<lparr>world = \<lparr>reads = [], answers = [], responses = []\<rparr>,
          trace = [FetchModify ''README.md''
                     \<lparr>command = ''make'', success = Some False, insights = Some ''no makefile''\<rparr>,
                   Spawn, ReadNonblocking 1024 500,
                   Sendline (''echo fix'' @ [CHR 0x0A]), Uuid4,
                   Sendline ''fix && echo Completed 7'',
                   ReadNonblocking 1024 2000, ProvideInput ''ok Completed 7'',
                   ReadNonblocking 1024 2000, AnalyzeOutput ''ok Completed 7'']\<rparr>"
  have h1: "[0::nat] \<noteq> []" by simp
  have h2: "command_reports (goal_objs store0 (last [0]))
              \<noteq> modify_command_reports (goal_objs store0 (last [0]))"
    by (simp add: store_simps)
  have h3: "repaired script_env ''README.md'' (command_reports_of store0 (last [0]))
        [([''fix''], [script_judge ''ok Completed 7''])] ?init = Some ?fin"
    by (simp add: store_simps run_simps prims script_simps)
  have h4: "modify_reports_of store0 (last [0]) = []" by (simp add: store_simps)
  show ?thesis
    using h1 h2 h3 h4
      repair_loop_once_per_failed_report[OF h1 h2, of script_env "''README.md''"
        "[([''fix''], [script_judge ''ok Completed 7''])]" ?init ?fin, THEN conjunct1]
    by simp
qed

subsection \<open>C6: the report of the prior stage\<close>

lemma execute_commands_frame:
  assumes "execute_commands E refs (h, s) = Some (r, h', s')"
  shows "\<forall>a < next_ref h. goal_objs h' a = goal_objs h a \<and> list_objs h' a = list_objs h a"
  using assms
  by (auto simp: execute_commands_def Let_def new_list_def new_goal_def
           split: if_splits Option.bind_splits sum.splits prod.splits)

text \<open>
  C6 fails on \<^verbatim>\<open>execute_mutator_commands\<close>. The goal report at address 0 shows no
  modification reports before the stage. The stage returns a new goal report, at
  address 2, and leaves the object at address 0 as it was; but \<^verbatim>\<open>dataclasses.replace\<close>
  gave the new object the list of the old one, and \<^verbatim>\<open>+=\<close> extended that list in
  place: after the stage the goal report at address 0 shows the report of the
  corrective command. (\<^verbatim>\<open>execute_commands\<close> does leave every object of the store as it
  was: \<open>execute_commands_frame\<close>.)
\<close>

theorem prior_goal_report_mutated:
  "modify_reports_of store0 0 = []
   \<and> map_option (\<lambda>(r, h, s). (r, goal_objs h 0 = goal0, modify_reports_of h 0))
        (execute_mutator_commands script_env ''README.md'' [0]
           (store0, start [Inr ''banner'', Inr ''ok Completed 7''] [] []))
      = Some (Inr [2], True, [script_judge ''ok Completed 7''])"
  by (simp add: execute_mutator_commands_def mutator_loop.simps replace_goal_def new_goal_def
        iadd_modify_command_reports_def store_simps run_simps prims script_simps)

subsection \<open>C5: the scope of the session\<close>

lemma container_exit_on_every_return:
  assumes "container_execute_commands_sync E cmds s = Some (r, s')"
    and "client_enter E (world s) = (Inr u, w)"
  shows "last (trace s') = ClientExit"
proof -
  from assms obtain s2 where "s' = do_client_exit E s2"
    by (auto simp: container_execute_commands_sync_def do_client_enter_def
             split: Option.bind_splits)
  then show ?thesis by (simp add: do_client_exit_def emit_def)
qed


end
